theory Spec2Isabelle
  imports Main
begin

section \<open>Strings as the facility uses them\<close>

text \<open>
  Paths, method names and regular-expression sources are JavaScript strings, modelled as
  \<^typ>\<open>string\<close> (a list of characters). The functions below are the library operations
  that \<open>src/index.js\<close> calls on them, each restricted to the way it is called there.
\<close>

definition backslash :: char where
  "backslash = CHR 0x5C"

text \<open>\<open>s.split(sep)\<close> for a one-character separator: \<open>''.split('/')\<close> is \<open>['']\<close>.\<close>

fun split :: "char \<Rightarrow> string \<Rightarrow> string list" where
  "split sep [] = [[]]"
| "split sep (c # cs) =
     (if c = sep then [] # split sep cs
      else (case split sep cs of [] \<Rightarrow> [[c]] | x # xs \<Rightarrow> (c # x) # xs))"

text \<open>\<open>xs.join(sep)\<close>.\<close>

fun join :: "string \<Rightarrow> string list \<Rightarrow> string" where
  "join sep [] = []"
| "join sep [x] = x"
| "join sep (x # y # ys) = x @ sep @ join sep (y # ys)"

text \<open>\<open>a || b\<close> on strings: the empty string is falsy.\<close>

definition orElse :: "string \<Rightarrow> string \<Rightarrow> string" where
  "orElse a b = (if a = [] then b else a)"

text \<open>
  \<open>m.toUpperCase()\<close> on the letters \<open>a\<close> to \<open>z\<close>; every other character is kept
  (HTTP method names are ASCII tokens).
\<close>

definition upperChar :: "char \<Rightarrow> char" where
  "upperChar c =
     (case map_of (zip ''abcdefghijklmnopqrstuvwxyz'' ''ABCDEFGHIJKLMNOPQRSTUVWXYZ'') c of
        None \<Rightarrow> c | Some u \<Rightarrow> u)"

definition toUpperCase :: "string \<Rightarrow> string" where
  "toUpperCase s = map upperChar s"

text \<open>
  A JavaScript \<open>Set\<close> of strings keeps insertion order and holds no duplicates: it is a
  list without repetitions, \<open>add\<close> appending an element that is not yet there.
\<close>

definition setAdd :: "string list \<Rightarrow> string \<Rightarrow> string list" where
  "setAdd s m = (if m \<in> set s then s else s @ [m])"

definition newSet :: "string list \<Rightarrow> string list" where
  "newSet xs = foldl setAdd [] xs"

section \<open>Path normalisation\<close>

text \<open>\<open>s.replace(/\/+$/, '')\<close>: the whole run of slashes at the end of \<open>s\<close> is removed.\<close>

definition stripTrailingSlashes :: "string \<Rightarrow> string" where
  "stripTrailingSlashes s = rev (dropWhile (\<lambda>c. c = CHR ''/'') (rev s))"

text \<open>
  \<open>function normalize (p) { return (p.split('?')[0] || '/').replace(/\/+$/, '') || '/' }\<close>
\<close>

definition normalize :: "string \<Rightarrow> string" where
  "normalize p =
     orElse (stripTrailingSlashes
       (orElse (case split (CHR ''?'') p of [] \<Rightarrow> [] | x # _ \<Rightarrow> x) ''/'')) ''/''"

text \<open>
  \<open>function head (p) { const s = normalize(p).split('/').filter(Boolean); return s[0] || '' }\<close>
\<close>

definition head :: "string \<Rightarrow> string" where
  "head p =
     (case filter (\<lambda>s. s \<noteq> []) (split (CHR ''/'') (normalize p)) of
        [] \<Rightarrow> [] | x # _ \<Rightarrow> orElse x [])"

section \<open>Compiling a route path to a regular expression\<close>

text \<open>The characters of the class \<open>[.*+?^${}()|[\]\\]\<close>.\<close>

definition regexSpecials :: "char list" where
  "regexSpecials = ''.*+?^${}()|[]'' @ [backslash]"

text \<open>\<open>norm.replace(/[.*+?^${}()|[\]\\]/g, '\\$&')\<close>: a backslash before each special character.\<close>

definition escapeRegex :: "string \<Rightarrow> string" where
  "escapeRegex s = concat (map (\<lambda>c. if c \<in> set regexSpecials then [backslash, c] else [c]) s)"

text \<open>The class \<open>\w\<close>: letters, digits and the underscore.\<close>

definition wordChar :: "char \<Rightarrow> bool" where
  "wordChar c \<longleftrightarrow>
     c \<in> set ''abcdefghijklmnopqrstuvwxyzABCDEFGHIJKLMNOPQRSTUVWXYZ0123456789_''"

text \<open>
  \<open>esc.replace(/:(\w+)/g, '[^/]+')\<close>: scanning from the left, a colon followed by one or
  more word characters is replaced, together with the longest such run, by \<open>[^/]+\<close>.
\<close>

function replaceParams :: "string \<Rightarrow> string" where
  "replaceParams [] = []"
| "replaceParams (c # cs) =
     (if c = CHR '':'' \<and> takeWhile wordChar cs \<noteq> []
      then ''[^/]+'' @ replaceParams (dropWhile wordChar cs)
      else c # replaceParams cs)"
  by pat_completeness auto
termination
  by (relation "measure length") (auto simp: le_imp_less_Suc length_dropWhile_le)

text \<open>
  \<open>toRegex\<close> returns \<open>new RegExp('^' + ... + '$')\<close>. A \<open>RegExp\<close> object without flags
  is determined by its source text, so the model keeps the source.
\<close>

definition toRegex :: "string \<Rightarrow> string" where
  "toRegex routePath =
     (let norm = normalize routePath;
          esc = escapeRegex norm
      in ''^'' @ replaceParams esc @ ''$'')"

subsection \<open>The regular expressions that \<open>toRegex\<close> writes\<close>

text \<open>
  The sources written by \<open>toRegex\<close> are made of a leading \<open>^\<close>, a final \<open>$\<close> and, in
  between, plain characters, special characters behind a backslash (an identity escape:
  the character itself) and the class \<open>[^/]+\<close> (one or more characters other than the
  slash). \<open>RegExp\<close> reads such a source; for a source outside this fragment it answers
  \<open>None\<close>, which \<open>toRegex\<close> never produces (lemma \<open>RegExp_toRegex\<close>).
\<close>

datatype atom = Lit char | NotSlashPlus

fun parseBody :: "string \<Rightarrow> atom list option" where
  "parseBody [] = None"
| "parseBody (c # cs) =
     (if c = CHR ''$'' \<and> cs = [] then Some []
      else if c = backslash then
        (case cs of
           [] \<Rightarrow> None
         | d # ds \<Rightarrow>
             if d \<in> set regexSpecials then map_option ((#) (Lit d)) (parseBody ds) else None)
      else if c = CHR ''['' then
        (if take 4 cs = ''^/]+'' then map_option ((#) NotSlashPlus) (parseBody (drop 4 cs))
         else None)
      else if c \<in> set regexSpecials then None
      else map_option ((#) (Lit c)) (parseBody cs))"

definition RegExp :: "string \<Rightarrow> atom list option" where
  "RegExp src = (case src of [] \<Rightarrow> None | c # cs \<Rightarrow> if c = CHR ''^'' then parseBody cs else None)"

text \<open>
  Matching a whole string: a literal takes the same character, \<open>[^/]+\<close> takes one
  character other than the slash and then either stops or goes on.
\<close>

fun matchAtoms :: "atom list \<Rightarrow> string \<Rightarrow> bool" where
  "matchAtoms [] s = (s = [])"
| "matchAtoms (Lit c # as) [] = False"
| "matchAtoms (Lit c # as) (d # ds) = (d = c \<and> matchAtoms as ds)"
| "matchAtoms (NotSlashPlus # as) [] = False"
| "matchAtoms (NotSlashPlus # as) (d # ds) =
     (d \<noteq> CHR ''/'' \<and> (matchAtoms as ds \<or> matchAtoms (NotSlashPlus # as) ds))"

text \<open>\<open>regex.test(p)\<close> for a regular expression given by its source.\<close>

definition regexTest :: "string \<Rightarrow> string \<Rightarrow> bool" where
  "regexTest src p = (case RegExp src of None \<Rightarrow> False | Some as \<Rightarrow> matchAtoms as p)"

section \<open>The index built by the \<open>onRoute\<close> hook\<close>

text \<open>
  The route object handed to the hook: \<open>[].concat(route.method)\<close> is the list of its
  methods (one element for a single method name), \<open>route.path\<close> its path. The field
  \<open>method\<close> of the source is \<open>route_method\<close> here.
\<close>

record route =
  route_method :: "string list"
  path :: string

record pattern =
  regex :: string
  methods :: "string list"

text \<open>The two maps of the closure: \<open>methodsByPath\<close> and \<open>patternsByHead\<close>.\<close>

record engine =
  methodsByPath :: "string \<rightharpoonup> string list"
  patternsByHead :: "string \<rightharpoonup> pattern list"

definition emptyEngine :: engine where
  "emptyEngine = \<lparr>methodsByPath = Map.empty, patternsByHead = Map.empty\<rparr>"

definition onRoute :: "route \<Rightarrow> engine \<Rightarrow> engine" where
  "onRoute r e =
     (let ms = newSet (map toUpperCase (route_method r));
          p = normalize (path r)
      in if CHR '':'' \<notin> set p \<and> CHR ''*'' \<notin> set p then
           (let s = (case methodsByPath e p of None \<Rightarrow> [] | Some s0 \<Rightarrow> s0)
            in e\<lparr>methodsByPath := (methodsByPath e)(p \<mapsto> foldl setAdd s ms)\<rparr>)
         else
           (let bucket = (case patternsByHead e (head p) of None \<Rightarrow> [] | Some b \<Rightarrow> b)
            in e\<lparr>patternsByHead :=
                 (patternsByHead e)(head p \<mapsto> bucket @ [\<lparr>regex = toRegex p, methods = ms\<rparr>])\<rparr>))"

text \<open>The hook runs once for each route, in the order in which the routes are declared.\<close>

definition onRoutes :: "route list \<Rightarrow> engine \<Rightarrow> engine" where
  "onRoutes rs e = foldl (\<lambda>e r. onRoute r e) e rs"

section \<open>The not-found handler\<close>

record request =
  reqMethod :: string
  url :: string

record body =
  message :: string
  error :: string
  statusCode :: nat

record reply =
  code :: nat
  headers :: "(string \<times> string) list"
  payload :: "body option"

text \<open>\<open>sendByStatusCode\<close> returns \<open>undefined\<close> (here \<open>None\<close>) for any other status code.\<close>

definition sendByStatusCode :: "nat \<Rightarrow> string \<Rightarrow> string \<Rightarrow> body option" where
  "sendByStatusCode sc m rt =
     (if sc = 404 then
        Some \<lparr>message = ''Route '' @ m @ '':'' @ rt @ '' not found'',
              error = ''Not Found'', statusCode = 404\<rparr>
      else if sc = 405 then
        Some \<lparr>message = ''Route '' @ m @ '':'' @ rt @ '' method not allowed'',
              error = ''Method Not Allowed'', statusCode = 405\<rparr>
      else None)"

text \<open>\<open>reply.code(405).header('Allow', [...allowed].join(', ')).send(sendByStatusCode(405, ...))\<close>\<close>

definition methodNotAllowed :: "string list \<Rightarrow> request \<Rightarrow> reply" where
  "methodNotAllowed allowed req =
     \<lparr>code = 405, headers = [(''Allow'', join '', '' allowed)],
      payload = sendByStatusCode 405 (reqMethod req) (url req)\<rparr>"

text \<open>\<open>reply.code(404).send(sendByStatusCode(404, req.method, req.url))\<close>\<close>

definition notFound :: "request \<Rightarrow> reply" where
  "notFound req = \<lparr>code = 404, headers = [], payload = sendByStatusCode 404 (reqMethod req) (url req)\<rparr>"

definition notFoundHandler :: "engine \<Rightarrow> request \<Rightarrow> reply" where
  "notFoundHandler e req =
     (let p = normalize (url req);
          exact = methodsByPath e p
      in case (case exact of None \<Rightarrow> None | Some s \<Rightarrow> if s \<noteq> [] then Some s else None) of
           Some s \<Rightarrow> methodNotAllowed s req
         | None \<Rightarrow>
             (let bucket = (case patternsByHead e (head p) of None \<Rightarrow> [] | Some b \<Rightarrow> b)
              in case find (\<lambda>r. regexTest (regex r) p) bucket of
                   Some hit \<Rightarrow> methodNotAllowed (methods hit) req
                 | None \<Rightarrow> notFound req))"

section \<open>The facility: registration and start\<close>

text \<open>
  Values that the facility only stores and hands on (route declarations, plugins,
  decorators, hook handlers, logger settings) are of an arbitrary type \<open>'v\<close>. An option
  that the code only tests is kept as far as the test reads it: \<open>onBadMethod\<close> and
  \<open>addDefaultRoutes\<close> by their truthiness, a string option as \<open>None\<close> when it is absent
  (a string option is truthy when it is present and not empty).
\<close>

record 'v opts =
  logger :: "'v option"
  trustProxy :: "'v option"
  onBadMethod :: bool
  staticRootPath :: "string option"
  staticPrefix :: "'v option"
  staticConstraints :: "'v option"
  staticOn404File :: "string option"
  addDefaultRoutes :: bool
  port :: "nat option"

text \<open>\<open>this.opts.port || this.conf.port\<close>: the number \<open>0\<close> is falsy.\<close>

definition orPort :: "nat option \<Rightarrow> nat option \<Rightarrow> nat option" where
  "orPort a b = (case a of None \<Rightarrow> b | Some n \<Rightarrow> if n = 0 then b else Some n)"

text \<open>
  The Fastify instance is an external collaborator. The model records the calls that
  \<open>startServer\<close> makes on it, in order, and the maps that the \<open>onBadMethod\<close> block
  creates for its two closures; what Fastify answers to a call is outside the model.
\<close>

datatype 'v hookHandler = IndexOnRoute | HostHandler 'v

datatype notFoundFn = MissHandler | SendFile string

datatype 'v routeArg = EchoRoute | HostRoute 'v

datatype 'v call =
    AddHook string "'v hookHandler"
  | SetNotFoundHandler notFoundFn
  | RegisterStatic string "'v option" "'v option"
  | Register 'v
  | Decorate 'v
  | Route "'v routeArg"
  | RegisterRoutes "'v list"
  | Listen "nat option"

record 'v server =
  fastifyLogger :: "'v option"
  fastifyTrustProxy :: "'v option"
  calls :: "'v call list"
  missEngine :: "engine option"

record 'v facility =
  opts :: "'v opts"
  confPort :: "nat option"
  server :: "'v server option"
  memPlugins :: "'v list"
  memRoutes :: "'v list"
  memDecorators :: "'v list"
  memHooks :: "(string \<times> 'v) list"

datatype facsError = ERR_FACS_SERVER_HTTP_ALREADY_INITED | ERR_FACS_SERVER_HTTP_CREATE_DUP

text \<open>
  A method returns its outcome and the facility as it leaves it: a \<open>throw\<close> is \<open>Inl\<close>
  together with the facility at the moment of the throw.
\<close>

definition addRoute :: "'v \<Rightarrow> 'v facility \<Rightarrow> (facsError + unit) \<times> 'v facility" where
  "addRoute r f =
     (if server f \<noteq> None then (Inl ERR_FACS_SERVER_HTTP_ALREADY_INITED, f)
      else (Inr (), f\<lparr>memRoutes := memRoutes f @ [r]\<rparr>))"

definition addDecorator :: "'v \<Rightarrow> 'v facility \<Rightarrow> (facsError + unit) \<times> 'v facility" where
  "addDecorator d f =
     (if server f \<noteq> None then (Inl ERR_FACS_SERVER_HTTP_ALREADY_INITED, f)
      else (Inr (), f\<lparr>memDecorators := memDecorators f @ [d]\<rparr>))"

definition addPlugin :: "'v \<Rightarrow> 'v facility \<Rightarrow> (facsError + unit) \<times> 'v facility" where
  "addPlugin p f =
     (if server f \<noteq> None then (Inl ERR_FACS_SERVER_HTTP_ALREADY_INITED, f)
      else (Inr (), f\<lparr>memPlugins := memPlugins f @ [p]\<rparr>))"

definition addHook :: "string \<Rightarrow> 'v \<Rightarrow> 'v facility \<Rightarrow> (facsError + unit) \<times> 'v facility" where
  "addHook hookName handler f =
     (if server f \<noteq> None then (Inl ERR_FACS_SERVER_HTTP_ALREADY_INITED, f)
      else (Inr (), f\<lparr>memHooks := memHooks f @ [(hookName, handler)]\<rparr>))"

definition DEFAULT_ROUTES :: "'v routeArg list" where
  "DEFAULT_ROUTES = [EchoRoute]"

text \<open>
  \<open>startServer\<close>: \<open>this.server\<close> is assigned before the first call on the instance. The
  routes of \<open>mem.routes\<close> are declared by a plugin of their own (\<open>RegisterRoutes\<close>).
\<close>

definition startServer :: "'v facility \<Rightarrow> (facsError + unit) \<times> 'v facility" where
  "startServer f =
     (if server f \<noteq> None then (Inl ERR_FACS_SERVER_HTTP_CREATE_DUP, f)
      else
        (let os = opts f;
             bad = (if onBadMethod os
                    then [AddHook ''onRoute'' IndexOnRoute, SetNotFoundHandler MissHandler]
                    else []);
             static =
               (case staticRootPath os of
                  None \<Rightarrow> []
                | Some root \<Rightarrow>
                    if root = [] then []
                    else RegisterStatic root (staticPrefix os) (staticConstraints os) #
                      (case staticOn404File os of
                         None \<Rightarrow> []
                       | Some file \<Rightarrow> if file = [] then [] else [SetNotFoundHandler (SendFile file)]));
             plugins = map Register (memPlugins f);
             decorators = map Decorate (memDecorators f);
             hooks = map (\<lambda>(name, handler). AddHook name (HostHandler handler)) (memHooks f);
             defaults = (if addDefaultRoutes os then map Route DEFAULT_ROUTES else []);
             routes = [RegisterRoutes (memRoutes f)];
             listen = [Listen (orPort (port os) (confPort f))]
         in (Inr (),
             f\<lparr>server := Some
               \<lparr>fastifyLogger = logger os, fastifyTrustProxy = trustProxy os,
                calls = bad @ static @ plugins @ decorators @ hooks @ defaults @ routes @ listen,
                missEngine = (if onBadMethod os then Some emptyEngine else None)\<rparr>\<rparr>)))"

section \<open>Auxiliary notions for the properties\<close>

text \<open>
  The atoms of the expression that \<open>toRegex\<close> writes for a normalised path, read off the
  path itself. Lemma \<open>RegExp_toRegex\<close> shows that \<open>RegExp\<close> reads exactly these atoms
  from the source text, so the function is a tool of the proofs and not part of the model.
\<close>

function compileAtoms :: "string \<Rightarrow> atom list" where
  "compileAtoms [] = []"
| "compileAtoms (c # cs) =
     (if c = CHR '':'' \<and> takeWhile wordChar cs \<noteq> []
      then NotSlashPlus # compileAtoms (dropWhile wordChar cs)
      else Lit c # compileAtoms cs)"
  by pat_completeness auto
termination
  by (relation "measure length") (auto simp: le_imp_less_Suc length_dropWhile_le)

text \<open>The methods that the exact index holds for a path; none when the path has no entry.\<close>

definition exactMethods :: "engine \<Rightarrow> string \<Rightarrow> string list" where
  "exactMethods e p = (case methodsByPath e p of None \<Rightarrow> [] | Some s \<Rightarrow> s)"

subsection \<open>Templates as the specification describes them\<close>

text \<open>
  The specification speaks of the segments of a path, the texts between its slashes; of a
  parameter segment, which begins with the marker \<open>:\<close>; and of the wildcard segment \<open>*\<close>.
  The definitions of this subsection follow its words, to be compared with the code.
\<close>

definition segments :: "string \<Rightarrow> string list" where
  "segments p = split (CHR ''/'') p"

definition specParam :: "string \<Rightarrow> bool" where
  "specParam s \<longleftrightarrow> take 1 s = '':''"

definition specWildcard :: "string \<Rightarrow> bool" where
  "specWildcard s \<longleftrightarrow> s = ''*''"

text \<open>A path is Dynamic if any segment begins with a parameter marker or equals a wildcard marker.\<close>

definition specDynamic :: "string \<Rightarrow> bool" where
  "specDynamic p \<longleftrightarrow> list_ex (\<lambda>s. specParam s \<or> specWildcard s) (segments p)"

text \<open>
  A literal segment matches the same segment; a parameter segment matches one candidate
  segment of any non-empty content. Segment counts must match.
\<close>

definition specSegMatch :: "string \<Rightarrow> string \<Rightarrow> bool" where
  "specSegMatch t c = (if specParam t then c \<noteq> [] else c = t)"

definition specMatch :: "string \<Rightarrow> string \<Rightarrow> bool" where
  "specMatch template cand =
     list_all2 specSegMatch (segments (normalize template)) (segments cand)"

text \<open>
  A plain template: each segment is either a colon followed by one or more word
  characters and nothing else, or a text without a colon.
\<close>

definition plainParam :: "string \<Rightarrow> bool" where
  "plainParam s \<longleftrightarrow> (case s of [] \<Rightarrow> False | c # cs \<Rightarrow> c = CHR '':'' \<and> cs \<noteq> [] \<and> list_all wordChar cs)"

definition plainSegment :: "string \<Rightarrow> bool" where
  "plainSegment s \<longleftrightarrow> (if CHR '':'' \<in> set s then plainParam s else True)"

definition plainTemplate :: "string \<Rightarrow> bool" where
  "plainTemplate t \<longleftrightarrow> list_all plainSegment (segments (normalize t))"

subsection \<open>Two facilities before their start\<close>

text \<open>
  One facility with the option \<open>onBadMethod\<close> set and one without it, the latter serving
  static files with a page for missing ones; both hold one route and one hook.
\<close>

abbreviation facilityWithBadMethod :: "nat facility" where
  "facilityWithBadMethod \<equiv>
     \<lparr>opts = \<lparr>logger = None, trustProxy = None, onBadMethod = True, staticRootPath = None,
              staticPrefix = None, staticConstraints = None, staticOn404File = None,
              addDefaultRoutes = True, port = Some 8080\<rparr>,
      confPort = None, server = None, memPlugins = [], memRoutes = [1], memDecorators = [],
      memHooks = [(''onRequest'', 2)]\<rparr>"

abbreviation facilityWithoutBadMethod :: "nat facility" where
  "facilityWithoutBadMethod \<equiv>
     \<lparr>opts = \<lparr>logger = None, trustProxy = None, onBadMethod = False,
              staticRootPath = Some ''/srv/www'', staticPrefix = None, staticConstraints = None,
              staticOn404File = Some ''404.html'', addDefaultRoutes = True, port = None\<rparr>,
      confPort = Some 3000, server = None, memPlugins = [], memRoutes = [1], memDecorators = [],
      memHooks = [(''onRequest'', 2)]\<rparr>"

section \<open>Properties of normalisation\<close>

lemma split_hd: "(case split sep p of [] \<Rightarrow> [] | x # _ \<Rightarrow> x) = takeWhile (\<lambda>c. c \<noteq> sep) p"
  by (induction p) (auto split: list.splits)

lemma normalize_alt:
  "normalize p = orElse (stripTrailingSlashes (orElse (takeWhile (\<lambda>c. c \<noteq> CHR ''?'') p) ''/'')) ''/''"
  by (simp add: normalize_def split_hd)

lemma set_stripTrailingSlashes: "set (stripTrailingSlashes s) \<subseteq> set s"
  unfolding stripTrailingSlashes_def using set_dropWhileD[of _ "\<lambda>c. c = CHR ''/''" "rev s"] by auto

lemma stripTrailingSlashes_last:
  "stripTrailingSlashes s \<noteq> [] \<Longrightarrow> last (stripTrailingSlashes s) \<noteq> CHR ''/''"
  unfolding stripTrailingSlashes_def
  using hd_dropWhile[of "\<lambda>c. c = CHR ''/''" "rev s"] by (simp add: last_rev)

lemma stripTrailingSlashes_id:
  "s \<noteq> [] \<Longrightarrow> last s \<noteq> CHR ''/'' \<Longrightarrow> stripTrailingSlashes s = s"
  unfolding stripTrailingSlashes_def
  by (cases s rule: rev_cases) auto

lemma stripTrailingSlashes_hd:
  "stripTrailingSlashes s \<noteq> [] \<Longrightarrow> hd (stripTrailingSlashes s) = hd s"
  unfolding stripTrailingSlashes_def
  by (induction s rule: rev_induct) (auto simp: hd_append split: if_splits)

lemma normalize_nonempty: "normalize p \<noteq> []"
  by (simp add: normalize_def orElse_def)

lemma normalize_no_query: "CHR ''?'' \<notin> set (normalize p)"
proof -
  have "CHR ''?'' \<notin> set (orElse (takeWhile (\<lambda>c. c \<noteq> CHR ''?'') p) ''/'')"
    by (auto simp: orElse_def dest: set_takeWhileD)
  then have "CHR ''?'' \<notin> set (stripTrailingSlashes (orElse (takeWhile (\<lambda>c. c \<noteq> CHR ''?'') p) ''/''))"
    using set_stripTrailingSlashes by blast
  then show ?thesis
    by (simp add: normalize_alt orElse_def[of "stripTrailingSlashes _"])
qed

lemma normalize_no_trailing: "normalize p \<noteq> ''/'' \<Longrightarrow> last (normalize p) \<noteq> CHR ''/''"
  unfolding normalize_alt orElse_def[of "stripTrailingSlashes _"]
  using stripTrailingSlashes_last by (auto split: if_splits)

lemma normalize_fixed:
  assumes "n \<noteq> []" "CHR ''?'' \<notin> set n" "n = ''/'' \<or> last n \<noteq> CHR ''/''"
  shows "normalize n = n"
proof -
  have tw: "takeWhile (\<lambda>c. c \<noteq> CHR ''?'') n = n"
    using assms(2) by (auto simp: takeWhile_eq_all_conv)
  show ?thesis
  proof (cases "n = ''/''")
    case True
    then show ?thesis by (simp add: normalize_def orElse_def stripTrailingSlashes_def)
  next
    case False
    with assms have "stripTrailingSlashes n = n" by (simp add: stripTrailingSlashes_id)
    with assms(1) show ?thesis unfolding normalize_alt tw by (simp add: orElse_def)
  qed
qed

lemma normalize_leading:
  assumes "p = [] \<or> hd p = CHR ''/''"
  shows "hd (normalize p) = CHR ''/''"
proof -
  let ?q = "orElse (takeWhile (\<lambda>c. c \<noteq> CHR ''?'') p) ''/''"
  have q: "?q \<noteq> [] \<and> hd ?q = CHR ''/''"
    using assms by (cases p) (auto simp: orElse_def)
  show ?thesis
  proof (cases "stripTrailingSlashes ?q = []")
    case True
    then have "normalize p = ''/''" unfolding normalize_alt by (simp add: orElse_def)
    then show ?thesis by simp
  next
    case False
    then show ?thesis using q stripTrailingSlashes_hd[OF False]
      by (simp add: normalize_alt orElse_def[of "stripTrailingSlashes _"])
  qed
qed

text \<open>
  Claim C8. Normalisation is idempotent: normalising a normalised path changes nothing.
\<close>

theorem normalize_idempotent: "normalize (normalize p) = normalize p"
  using normalize_fixed[OF normalize_nonempty normalize_no_query, of p] normalize_no_trailing[of p]
  by blast

theorem normalize_idempotent_witness:
  "normalize (normalize ''/a/b//?x=1'') = ''/a/b'' \<and> normalize ''/a/b//?x=1'' = ''/a/b''"
proof -
  have "normalize ''/a/b//?x=1'' = ''/a/b''" by code_simp
  then show ?thesis using normalize_idempotent[of "''/a/b//?x=1''"] by simp
qed

text \<open>
  Claim C4, as the code has it. For every string \<open>raw\<close>, the empty one included,
  \<open>normalize raw\<close> is not empty, contains no \<open>?\<close>, and does not end with a slash unless
  it is the root \<open>/\<close>; it begins with a slash whenever \<open>raw\<close> is empty or begins with
  one. Nothing in \<open>normalize\<close> adds a leading slash to an input that has none.
\<close>

theorem normalize_shape:
  "normalize raw \<noteq> [] \<and> CHR ''?'' \<notin> set (normalize raw) \<and>
   (normalize raw \<noteq> ''/'' \<longrightarrow> last (normalize raw) \<noteq> CHR ''/'') \<and>
   (raw = [] \<or> hd raw = CHR ''/'' \<longrightarrow> hd (normalize raw) = CHR ''/'')"
  using normalize_nonempty normalize_no_query normalize_no_trailing normalize_leading by blast

theorem normalize_shape_witness:
  "normalize ''/a/b/?x=1'' \<noteq> ''/'' \<and> hd ''/a/b/?x=1'' = CHR ''/'' \<and>
   last (normalize ''/a/b/?x=1'') \<noteq> CHR ''/'' \<and> hd (normalize ''/a/b/?x=1'') = CHR ''/'' \<and>
   normalize [] = ''/''"
proof -
  have h1: "normalize ''/a/b/?x=1'' \<noteq> ''/''" by code_simp
  have h2: "hd ''/a/b/?x=1'' = CHR ''/''" by simp
  have h3: "normalize [] = ''/''" by code_simp
  show ?thesis using h1 h2 h3 normalize_shape[of "''/a/b/?x=1''"] by blast
qed

text \<open>
  The path \<open>*\<close>, which a catch-all route or an \<open>OPTIONS *\<close> request carries, has no
  slash and no query: it is its own normal form, which does not begin with a slash.
\<close>

theorem normalize_leading_slash_counterexample:
  "normalize ''*'' = ''*'' \<and> hd (normalize ''*'') \<noteq> CHR ''/''"
  by code_simp

section \<open>Properties of the compiled expressions\<close>

subsection \<open>What \<open>RegExp\<close> reads from the source that \<open>toRegex\<close> writes\<close>

lemma backslash_not_word: "\<not> wordChar backslash"
  by (simp add: wordChar_def backslash_def)

lemma special_not_word: "c \<in> set regexSpecials \<Longrightarrow> \<not> wordChar c"
  by (auto simp: regexSpecials_def wordChar_def backslash_def)

lemma colon_not_special: "CHR '':'' \<notin> set regexSpecials"
  by (simp add: regexSpecials_def backslash_def)

lemma escapeRegex_Cons:
  "escapeRegex (c # cs) = (if c \<in> set regexSpecials then backslash # c # escapeRegex cs else c # escapeRegex cs)"
  by (simp add: escapeRegex_def)

lemma escapeRegex_Nil: "escapeRegex [] = []"
  by (simp add: escapeRegex_def)

lemma takeWhile_escape: "takeWhile wordChar (escapeRegex cs) = takeWhile wordChar cs"
  by (induction cs) (auto simp: escapeRegex_Cons escapeRegex_Nil backslash_not_word special_not_word)

lemma dropWhile_escape: "dropWhile wordChar (escapeRegex cs) = escapeRegex (dropWhile wordChar cs)"
  by (induction cs) (auto simp: escapeRegex_Cons escapeRegex_Nil backslash_not_word special_not_word)

lemma parseBody_compile:
  "parseBody (replaceParams (escapeRegex s) @ ''$'') = Some (compileAtoms s)"
proof (induction s rule: compileAtoms.induct)
  case 1
  show ?case by (simp add: escapeRegex_Nil)
next
  case (2 c cs)
  show ?case
  proof (cases "c = CHR '':'' \<and> takeWhile wordChar cs \<noteq> []")
    case True
    then have "replaceParams (escapeRegex (c # cs)) = ''[^/]+'' @ replaceParams (escapeRegex (dropWhile wordChar cs))"
      by (simp add: escapeRegex_Cons colon_not_special takeWhile_escape dropWhile_escape)
    with True 2(1) show ?thesis
      by (simp add: backslash_def)
  next
    case False
    note nparam = this
    show ?thesis
    proof (cases "c \<in> set regexSpecials")
      case True
      then have ne: "c \<noteq> CHR '':''" using colon_not_special by auto
      have "backslash \<noteq> CHR '':''" by (simp add: backslash_def)
      with True ne have "replaceParams (escapeRegex (c # cs)) = backslash # c # replaceParams (escapeRegex cs)"
        by (simp add: escapeRegex_Cons)
      with True nparam 2(2) show ?thesis
        by (simp add: backslash_def)
    next
      case False
      with nparam have "replaceParams (escapeRegex (c # cs)) = c # replaceParams (escapeRegex cs)"
        by (auto simp add: escapeRegex_Cons takeWhile_escape)
      moreover have "c \<noteq> backslash" "c \<noteq> CHR ''[''" "c \<noteq> CHR ''$''"
        using False by (auto simp: regexSpecials_def)
      ultimately show ?thesis using False nparam 2(2)
        by simp
    qed
  qed
qed

lemma RegExp_toRegex: "RegExp (toRegex p) = Some (compileAtoms (normalize p))"
  by (simp add: RegExp_def toRegex_def parseBody_compile)

lemma regexTest_toRegex: "regexTest (toRegex p) c = matchAtoms (compileAtoms (normalize p)) c"
  by (simp add: regexTest_def RegExp_toRegex)

subsection \<open>Splitting and joining\<close>

lemma split_nosep: "sep \<notin> set s \<Longrightarrow> split sep s = [s]"
  by (induction s) auto

lemma split_append: "sep \<notin> set s \<Longrightarrow> split sep (s @ sep # r) = s # split sep r"
  by (induction s) auto

lemma split_nonempty: "split sep s \<noteq> []"
  by (induction s) (auto split: list.splits)

lemma split_sepfree: "x \<in> set (split sep s) \<Longrightarrow> sep \<notin> set x"
  by (induction s arbitrary: x) (auto split: list.splits if_splits)

lemma join_Cons_Cons: "join s ((c # x) # xs) = c # join s (x # xs)"
  by (cases xs) auto

lemma join_split: "join [sep] (split sep s) = s"
proof (induction s)
  case Nil
  show ?case by simp
next
  case (Cons c cs)
  show ?case
  proof (cases "c = sep")
    case True
    with Cons show ?thesis by (cases "split sep cs") (auto simp: split_nonempty)
  next
    case False
    with Cons show ?thesis
      by (cases "split sep cs") (auto simp: split_nonempty join_Cons_Cons simp del: join.simps)
  qed
qed

lemma decompose: "sep \<notin> set c \<or> (\<exists>u v. c = u @ sep # v \<and> sep \<notin> set u)"
  using split_list_first[of sep c] by blast

lemma split_single_iff: "split sep c = [c0] \<longleftrightarrow> sep \<notin> set c \<and> c0 = c"
  using decompose[of sep c] by (auto simp: split_nosep split_append split_nonempty)

lemma split_Cons_iff:
  "split sep c = c0 # x # xs \<longleftrightarrow> (\<exists>c'. c = c0 @ sep # c' \<and> sep \<notin> set c0 \<and> split sep c' = x # xs)"
  using decompose[of sep c] by (auto simp: split_nosep split_append)

subsection \<open>Matching segment by segment\<close>

lemma compileAtoms_lit: "CHR '':'' \<notin> set l \<Longrightarrow> compileAtoms (l @ r) = map Lit l @ compileAtoms r"
  by (induction l) auto

lemma compileAtoms_param:
  assumes "w \<noteq> []" "list_all wordChar w" "r = [] \<or> \<not> wordChar (hd r)"
  shows "compileAtoms (CHR '':'' # w @ r) = NotSlashPlus # compileAtoms r"
proof -
  have r: "takeWhile wordChar r = []" "dropWhile wordChar r = r"
    using assms(3) by (cases r; auto)+
  have "takeWhile wordChar (w @ r) = w" "dropWhile wordChar (w @ r) = r"
    using assms(2) r by (auto simp: list_all_iff takeWhile_append2 dropWhile_append2)
  with assms(1) show ?thesis by simp
qed

lemma matchAtoms_lit: "matchAtoms (map Lit l @ as) c = (\<exists>v. c = l @ v \<and> matchAtoms as v)"
proof (induction l arbitrary: c)
  case Nil
  show ?case by simp
next
  case (Cons a l)
  show ?case by (cases c) (auto simp: Cons)
qed

lemma matchAtoms_plus:
  "matchAtoms (NotSlashPlus # as) c =
     (\<exists>u v. c = u @ v \<and> u \<noteq> [] \<and> CHR ''/'' \<notin> set u \<and> matchAtoms as v)"
proof (induction c)
  case Nil
  show ?case by simp
next
  case (Cons d ds)
  show ?case
  proof
    assume "matchAtoms (NotSlashPlus # as) (d # ds)"
    then have d: "d \<noteq> CHR ''/''" and "matchAtoms as ds \<or> matchAtoms (NotSlashPlus # as) ds"
      by auto
    then consider "matchAtoms as ds" | "matchAtoms (NotSlashPlus # as) ds" by blast
    then show "\<exists>u v. d # ds = u @ v \<and> u \<noteq> [] \<and> CHR ''/'' \<notin> set u \<and> matchAtoms as v"
    proof cases
      case 1
      with d have "d # ds = [d] @ ds \<and> [d] \<noteq> [] \<and> CHR ''/'' \<notin> set [d] \<and> matchAtoms as ds"
        by simp
      then show ?thesis by blast
    next
      case 2
      with Cons obtain u v where "ds = u @ v" "u \<noteq> []" "CHR ''/'' \<notin> set u" "matchAtoms as v"
        by blast
      with d have "d # ds = (d # u) @ v \<and> d # u \<noteq> [] \<and> CHR ''/'' \<notin> set (d # u) \<and> matchAtoms as v"
        by simp
      then show ?thesis by blast
    qed
  next
    assume "\<exists>u v. d # ds = u @ v \<and> u \<noteq> [] \<and> CHR ''/'' \<notin> set u \<and> matchAtoms as v"
    then obtain u v where uv: "d # ds = u @ v" "u \<noteq> []" "CHR ''/'' \<notin> set u" "matchAtoms as v"
      by blast
    then obtain u' where u: "u = d # u'" "ds = u' @ v"
      by (cases u) auto
    show "matchAtoms (NotSlashPlus # as) (d # ds)"
    proof (cases "u' = []")
      case True
      with u uv show ?thesis by auto
    next
      case False
      with u uv have "matchAtoms (NotSlashPlus # as) ds"
        using Cons by auto
      with u uv show ?thesis by auto
    qed
  qed
qed

lemma plainSegment_cases:
  assumes "plainSegment x"
  shows "(CHR '':'' \<notin> set x \<and> \<not> specParam x) \<or>
         (\<exists>w. x = CHR '':'' # w \<and> w \<noteq> [] \<and> list_all wordChar w \<and> specParam x)"
proof (cases "CHR '':'' \<in> set x")
  case True
  with assms have "plainParam x" by (simp add: plainSegment_def)
  then show ?thesis by (cases x) (auto simp: plainParam_def specParam_def)
next
  case False
  then have "\<not> specParam x" by (cases x) (auto simp: specParam_def)
  with False show ?thesis by simp
qed

lemma slash_not_word: "\<not> wordChar (CHR ''/'')"
  by (simp add: wordChar_def)

lemma matchAtoms_segment:
  assumes "CHR ''/'' \<notin> set x" "plainSegment x" "r = [] \<or> hd r = CHR ''/''"
  shows "matchAtoms (compileAtoms (x @ r)) c =
           (\<exists>u v. c = u @ v \<and> CHR ''/'' \<notin> set u \<and> specSegMatch x u \<and> matchAtoms (compileAtoms r) v)"
  using plainSegment_cases[OF assms(2)]
proof (elim disjE conjE exE)
  assume lit: "CHR '':'' \<notin> set x" "\<not> specParam x"
  then have "matchAtoms (compileAtoms (x @ r)) c = (\<exists>v. c = x @ v \<and> matchAtoms (compileAtoms r) v)"
    by (simp add: compileAtoms_lit matchAtoms_lit)
  also have "\<dots> = (\<exists>u v. c = u @ v \<and> CHR ''/'' \<notin> set u \<and> specSegMatch x u \<and> matchAtoms (compileAtoms r) v)"
    using lit assms(1) by (auto simp: specSegMatch_def)
  finally show ?thesis .
next
  fix w
  assume par: "x = CHR '':'' # w" "w \<noteq> []" "list_all wordChar w" "specParam x"
  have "r = [] \<or> \<not> wordChar (hd r)" using assms(3) slash_not_word by auto
  with par(2,3) have "compileAtoms (CHR '':'' # w @ r) = NotSlashPlus # compileAtoms r"
    by (rule compileAtoms_param)
  with par(1) have "compileAtoms (x @ r) = NotSlashPlus # compileAtoms r"
    by (simp del: compileAtoms.simps)
  then show ?thesis using par(4)
    by (auto simp: matchAtoms_plus specSegMatch_def)
qed

lemma compileAtoms_slash: "compileAtoms (CHR ''/'' # r) = Lit (CHR ''/'') # compileAtoms r"
  by simp

lemma matchAtoms_one:
  assumes "CHR ''/'' \<notin> set x" "plainSegment x"
  shows "matchAtoms (compileAtoms x) c = list_all2 specSegMatch [x] (split (CHR ''/'') c)"
proof -
  have "matchAtoms (compileAtoms (x @ [])) c =
      (\<exists>u v. c = u @ v \<and> CHR ''/'' \<notin> set u \<and> specSegMatch x u \<and> matchAtoms (compileAtoms []) v)"
    using assms by (intro matchAtoms_segment) auto
  also have "\<dots> = (CHR ''/'' \<notin> set c \<and> specSegMatch x c)" by auto
  also have "\<dots> = list_all2 specSegMatch [x] (split (CHR ''/'') c)"
    by (auto simp: list_all2_Cons1 split_single_iff)
  finally show ?thesis by simp
qed

lemma matchAtoms_more:
  assumes "CHR ''/'' \<notin> set x" "plainSegment x"
    and IH: "\<And>v. matchAtoms (compileAtoms J) v = list_all2 specSegMatch (y # ys) (split (CHR ''/'') v)"
  shows "matchAtoms (compileAtoms (x @ CHR ''/'' # J)) c =
           list_all2 specSegMatch (x # y # ys) (split (CHR ''/'') c)"
proof -
  have "matchAtoms (compileAtoms (x @ CHR ''/'' # J)) c =
      (\<exists>u v. c = u @ v \<and> CHR ''/'' \<notin> set u \<and> specSegMatch x u \<and> matchAtoms (compileAtoms (CHR ''/'' # J)) v)"
    using assms(1,2) by (intro matchAtoms_segment) auto
  also have "\<dots> = (\<exists>u v'. c = u @ CHR ''/'' # v' \<and> CHR ''/'' \<notin> set u \<and> specSegMatch x u \<and>
       list_all2 specSegMatch (y # ys) (split (CHR ''/'') v'))"
    unfolding compileAtoms_slash
  proof (intro iffI; elim exE conjE)
    fix u v
    assume a: "c = u @ v" "CHR ''/'' \<notin> set u" "specSegMatch x u" "matchAtoms (Lit (CHR ''/'') # compileAtoms J) v"
    then obtain v' where "v = CHR ''/'' # v'" "matchAtoms (compileAtoms J) v'"
      by (cases v) auto
    with a IH show "\<exists>u v'. c = u @ CHR ''/'' # v' \<and> CHR ''/'' \<notin> set u \<and> specSegMatch x u \<and>
       list_all2 specSegMatch (y # ys) (split (CHR ''/'') v')" by blast
  next
    fix u v'
    assume a: "c = u @ CHR ''/'' # v'" "CHR ''/'' \<notin> set u" "specSegMatch x u"
       "list_all2 specSegMatch (y # ys) (split (CHR ''/'') v')"
    with IH have "matchAtoms (Lit (CHR ''/'') # compileAtoms J) (CHR ''/'' # v')" by simp
    with a show "\<exists>u v. c = u @ v \<and> CHR ''/'' \<notin> set u \<and> specSegMatch x u \<and>
       matchAtoms (Lit (CHR ''/'') # compileAtoms J) v" by blast
  qed
  also have "\<dots> = list_all2 specSegMatch (x # y # ys) (split (CHR ''/'') c)"
  proof (intro iffI; (elim exE conjE)?)
    fix u v'
    assume a: "c = u @ CHR ''/'' # v'" "CHR ''/'' \<notin> set u" "specSegMatch x u"
       "list_all2 specSegMatch (y # ys) (split (CHR ''/'') v')"
    then show "list_all2 specSegMatch (x # y # ys) (split (CHR ''/'') c)"
      by (simp add: split_append)
  next
    assume "list_all2 specSegMatch (x # y # ys) (split (CHR ''/'') c)"
    then obtain c0 c1 cs where s: "split (CHR ''/'') c = c0 # c1 # cs" "specSegMatch x c0"
        "list_all2 specSegMatch (y # ys) (c1 # cs)"
      by (auto simp: list_all2_Cons1)
    from s(1) obtain c' where c': "c = c0 @ CHR ''/'' # c'" "CHR ''/'' \<notin> set c0" "split (CHR ''/'') c' = c1 # cs"
      unfolding split_Cons_iff by blast
    with s(2,3) have "c = c0 @ CHR ''/'' # c' \<and> CHR ''/'' \<notin> set c0 \<and> specSegMatch x c0 \<and>
       list_all2 specSegMatch (y # ys) (split (CHR ''/'') c')" by simp
    then show "\<exists>u v'. c = u @ CHR ''/'' # v' \<and> CHR ''/'' \<notin> set u \<and> specSegMatch x u \<and>
       list_all2 specSegMatch (y # ys) (split (CHR ''/'') v')" by blast
  qed
  finally show ?thesis .
qed

lemma matchAtoms_segments:
  assumes "segs \<noteq> []" "\<forall>x\<in>set segs. CHR ''/'' \<notin> set x \<and> plainSegment x"
  shows "matchAtoms (compileAtoms (join ''/'' segs)) c = list_all2 specSegMatch segs (split (CHR ''/'') c)"
  using assms
proof (induction segs arbitrary: c)
  case Nil
  then show ?case by simp
next
  case (Cons x xs)
  show ?case
  proof (cases xs)
    case Nil
    with Cons.prems show ?thesis by (simp add: matchAtoms_one)
  next
    case (Cons y ys)
    have "\<And>v. matchAtoms (compileAtoms (join ''/'' (y # ys))) v =
            list_all2 specSegMatch (y # ys) (split (CHR ''/'') v)"
      using Cons.IH Cons.prems Cons by simp
    then have "matchAtoms (compileAtoms (x @ CHR ''/'' # join ''/'' (y # ys))) c =
           list_all2 specSegMatch (x # y # ys) (split (CHR ''/'') c)"
      using Cons.prems by (intro matchAtoms_more) auto
    with Cons show ?thesis by simp
  qed
qed

lemma regexTest_plain:
  assumes "plainTemplate t"
  shows "regexTest (toRegex t) c = specMatch t c"
proof -
  let ?n = "normalize t"
  let ?segs = "split (CHR ''/'') ?n"
  have "\<forall>x\<in>set ?segs. CHR ''/'' \<notin> set x \<and> plainSegment x"
    using assms split_sepfree[of _ "CHR ''/''" ?n] by (auto simp: plainTemplate_def segments_def list_all_iff)
  then have "matchAtoms (compileAtoms (join ''/'' ?segs)) c = list_all2 specSegMatch ?segs (split (CHR ''/'') c)"
    using matchAtoms_segments[of ?segs c] split_nonempty by blast
  moreover have "join ''/'' ?segs = ?n" using join_split[of "CHR ''/''" ?n] by simp
  ultimately show ?thesis
    by (simp add: regexTest_toRegex specMatch_def segments_def)
qed

text \<open>
  Claim C7, as the code has it. For every template without a wildcard segment in which
  each parameter segment is a colon followed by word characters only and no other segment
  contains a colon, the compiled matcher accepts a candidate path exactly when the
  candidate has as many segments as the template, each literal segment is equal to the
  template's, and each parameter segment stands against one non-empty candidate segment
  (a segment never contains a slash).
\<close>

theorem regexTest_plain_template:
  "plainTemplate t \<Longrightarrow> \<not> list_ex specWildcard (segments (normalize t)) \<Longrightarrow>
     regexTest (toRegex t) c = specMatch t c"
  by (rule regexTest_plain)

theorem regexTest_plain_template_witness:
  "plainTemplate ''/users/:id/posts/:postId'' \<and>
   \<not> list_ex specWildcard (segments (normalize ''/users/:id/posts/:postId'')) \<and>
   regexTest (toRegex ''/users/:id/posts/:postId'') ''/users/42/posts/7'' \<and>
   \<not> regexTest (toRegex ''/users/:id/posts/:postId'') ''/users/42/posts'' \<and>
   \<not> regexTest (toRegex ''/users/:id/posts/:postId'') ''/users/42/posts/7/comments''"
proof -
  have h1: "plainTemplate ''/users/:id/posts/:postId''" by code_simp
  have h2: "\<not> list_ex specWildcard (segments (normalize ''/users/:id/posts/:postId''))" by code_simp
  have s1: "specMatch ''/users/:id/posts/:postId'' ''/users/42/posts/7''" by code_simp
  have s2: "\<not> specMatch ''/users/:id/posts/:postId'' ''/users/42/posts''" by code_simp
  have s3: "\<not> specMatch ''/users/:id/posts/:postId'' ''/users/42/posts/7/comments''" by code_simp
  show ?thesis
    using h1 h2 s1 s2 s3 regexTest_plain_template[OF h1 h2] by blast
qed

text \<open>
  In the template \<open>/near/:lat-:lng\<close> the second segment begins with the parameter marker,
  and the candidate \<open>/near/abc\<close> has two segments, the first equal and the second not
  empty. The expression is \<open>^/near/[^/]+-[^/]+$\<close>: the parameter name ends at the hyphen,
  which the candidate must contain.
\<close>

theorem pattern_match_counterexample:
  "specDynamic ''/near/:lat-:lng'' \<and>
   \<not> list_ex specWildcard (segments (normalize ''/near/:lat-:lng'')) \<and>
   specMatch ''/near/:lat-:lng'' ''/near/abc'' \<and>
   \<not> regexTest (toRegex ''/near/:lat-:lng'') ''/near/abc''"
  by code_simp

text \<open>A template without a colon is matched as it is written, star included.\<close>

lemma regexTest_no_colon:
  assumes "CHR '':'' \<notin> set (normalize t)"
  shows "regexTest (toRegex t) c = (c = normalize t)"
proof -
  have "compileAtoms (normalize t @ []) = map Lit (normalize t) @ compileAtoms []"
    using assms by (rule compileAtoms_lit)
  then have "matchAtoms (compileAtoms (normalize t)) c = matchAtoms (map Lit (normalize t) @ []) c"
    by simp
  also have "\<dots> = (c = normalize t)"
    unfolding matchAtoms_lit by auto
  finally show ?thesis by (simp add: regexTest_toRegex)
qed

text \<open>
  Claim C1 at the template \<open>/static/*\<close>. The star is among the characters that
  \<open>toRegex\<close> escapes, so the expression is \<open>^/static/\*$\<close>: it accepts the path
  \<open>/static/*\<close> and rejects \<open>/static/a/b/c\<close>.
\<close>

theorem wildcard_template_is_literal:
  "\<not> regexTest (toRegex ''/static/*'') ''/static/a/b/c'' \<and>
   regexTest (toRegex ''/static/*'') ''/static/*''"
  by code_simp

section \<open>Properties of the index and of the not-found handler\<close>

lemma set_foldl_setAdd: "set (foldl setAdd s xs) = set s \<union> set xs"
  by (induction xs arbitrary: s) (auto simp: setAdd_def)

lemma distinct_foldl_setAdd: "distinct s \<Longrightarrow> distinct (foldl setAdd s xs)"
  by (induction xs arbitrary: s) (auto simp: setAdd_def)

lemma set_newSet: "set (newSet xs) = set xs"
  by (simp add: newSet_def set_foldl_setAdd)

lemma exactMethods_onRoute:
  assumes "CHR '':'' \<notin> set p" "CHR ''*'' \<notin> set p"
  shows "exactMethods (onRoute r e) p =
     (if normalize (path r) = p
      then foldl setAdd (exactMethods e p) (newSet (map toUpperCase (route_method r)))
      else exactMethods e p)"
  using assms by (auto simp: onRoute_def exactMethods_def Let_def)

lemma methodsByPath_onRoute_dom:
  assumes "CHR '':'' \<notin> set p" "CHR ''*'' \<notin> set p"
  shows "(methodsByPath (onRoute r e) p \<noteq> None) = (methodsByPath e p \<noteq> None \<or> normalize (path r) = p)"
  using assms by (auto simp: onRoute_def Let_def)

lemma onRoutes_Nil: "onRoutes [] e = e"
  by (simp add: onRoutes_def)

lemma onRoutes_Cons: "onRoutes (r # rs) e = onRoutes rs (onRoute r e)"
  by (simp add: onRoutes_def)

lemma exactMethods_onRoutes:
  assumes "CHR '':'' \<notin> set p" "CHR ''*'' \<notin> set p"
  shows "distinct (exactMethods e p) \<Longrightarrow>
     distinct (exactMethods (onRoutes rs e) p) \<and>
     set (exactMethods (onRoutes rs e) p) =
       set (exactMethods e p) \<union> (\<Union>r\<in>{r \<in> set rs. normalize (path r) = p}. toUpperCase ` set (route_method r)) \<and>
     ((methodsByPath (onRoutes rs e) p \<noteq> None) =
       (methodsByPath e p \<noteq> None \<or> (\<exists>r\<in>set rs. normalize (path r) = p)))"
proof (induction rs arbitrary: e)
  case Nil
  then show ?case by (simp add: onRoutes_Nil)
next
  case (Cons r rs)
  have d: "distinct (exactMethods (onRoute r e) p)"
    using Cons.prems by (simp add: exactMethods_onRoute[OF assms] distinct_foldl_setAdd)
  have s: "set (exactMethods (onRoute r e) p) =
      set (exactMethods e p) \<union> (if normalize (path r) = p then toUpperCase ` set (route_method r) else {})"
    by (simp add: exactMethods_onRoute[OF assms] set_foldl_setAdd set_newSet)
  from Cons.IH[OF d] s methodsByPath_onRoute_dom[OF assms, of r e]
  show ?case
    unfolding onRoutes_Cons by (auto split: if_splits)
qed

text \<open>
  Claim C3, as the code has it. The hook files a route by the characters of its
  normalised path: when the path contains a colon or a star anywhere, the route goes to
  the pattern bucket of its first segment and the exact index is left as it was;
  otherwise it goes to the exact index and the pattern buckets are left as they were.
\<close>

theorem onRoute_classification:
  "(CHR '':'' \<in> set (normalize (path r)) \<or> CHR ''*'' \<in> set (normalize (path r)) \<longrightarrow>
      methodsByPath (onRoute r e) = methodsByPath e \<and>
      (\<exists>b. patternsByHead (onRoute r e) (head (normalize (path r))) =
         Some (b @ [\<lparr>regex = toRegex (normalize (path r)),
                     methods = newSet (map toUpperCase (route_method r))\<rparr>]))) \<and>
   (CHR '':'' \<notin> set (normalize (path r)) \<and> CHR ''*'' \<notin> set (normalize (path r)) \<longrightarrow>
      patternsByHead (onRoute r e) = patternsByHead e \<and>
      (\<exists>s. methodsByPath (onRoute r e) (normalize (path r)) = Some s \<and>
           set s = set (exactMethods e (normalize (path r))) \<union> toUpperCase ` set (route_method r)))"
  by (auto simp: onRoute_def Let_def exactMethods_def set_foldl_setAdd set_newSet split: option.splits)

theorem onRoute_classification_witness:
  "CHR '':'' \<in> set (normalize (path \<lparr>route_method = [''GET''], path = ''/a:b''\<rparr>)) \<and>
   methodsByPath (onRoute \<lparr>route_method = [''GET''], path = ''/a:b''\<rparr> emptyEngine) =
     methodsByPath emptyEngine \<and>
   CHR '':'' \<notin> set (normalize (path \<lparr>route_method = [''GET''], path = ''/items''\<rparr>)) \<and>
   CHR ''*'' \<notin> set (normalize (path \<lparr>route_method = [''GET''], path = ''/items''\<rparr>)) \<and>
   patternsByHead (onRoute \<lparr>route_method = [''GET''], path = ''/items''\<rparr> emptyEngine) =
     patternsByHead emptyEngine"
proof -
  have h1: "CHR '':'' \<in> set (normalize (path \<lparr>route_method = [''GET''], path = ''/a:b''\<rparr>))"
    by code_simp
  have h2: "CHR '':'' \<notin> set (normalize (path \<lparr>route_method = [''GET''], path = ''/items''\<rparr>))"
    by code_simp
  have h3: "CHR ''*'' \<notin> set (normalize (path \<lparr>route_method = [''GET''], path = ''/items''\<rparr>))"
    by code_simp
  show ?thesis
    using h1 h2 h3
      onRoute_classification[of "\<lparr>route_method = [''GET''], path = ''/a:b''\<rparr>" emptyEngine]
      onRoute_classification[of "\<lparr>route_method = [''GET''], path = ''/items''\<rparr>" emptyEngine]
    by blast
qed

text \<open>
  The paths \<open>/a:b\<close> and \<open>/a*b\<close> have no segment that begins with a colon or is a star,
  yet the hook files them in the pattern buckets and not in the exact index.
\<close>

theorem interior_marker_counterexample:
  "\<not> specDynamic ''/a:b'' \<and> \<not> specDynamic ''/a*b'' \<and>
   methodsByPath (onRoute \<lparr>route_method = [''GET''], path = ''/a:b''\<rparr> emptyEngine) ''/a:b'' = None \<and>
   patternsByHead (onRoute \<lparr>route_method = [''GET''], path = ''/a:b''\<rparr> emptyEngine) ''a:b'' =
     Some [\<lparr>regex = toRegex ''/a:b'', methods = [''GET'']\<rparr>] \<and>
   methodsByPath (onRoute \<lparr>route_method = [''GET''], path = ''/a*b''\<rparr> emptyEngine) ''/a*b'' = None"
  by code_simp

text \<open>
  Claim C6, as the code has it. Let a path that contains neither a colon nor a star be
  the normalised path of at least one of the declared routes. Then the exact index holds
  one entry for it, a set without duplicates whose elements are the upper-cased methods
  of all the routes declared for that path, and a miss on the path is answered 405 with
  that set in the \<open>Allow\<close> header when the set is not empty. Declaring \<open>/items\<close> for GET
  and then for POST makes a miss on \<open>/items\<close> answer with \<open>Allow: GET, POST\<close>.
\<close>

theorem method_accumulation:
  assumes "CHR '':'' \<notin> set p" "CHR ''*'' \<notin> set p" "\<exists>r\<in>set rs. normalize (path r) = p"
  shows "\<exists>s. methodsByPath (onRoutes rs emptyEngine) p = Some s \<and> distinct s \<and>
            set s = (\<Union>r\<in>{r \<in> set rs. normalize (path r) = p}. toUpperCase ` set (route_method r)) \<and>
            (s \<noteq> [] \<longrightarrow>
               (\<forall>req. normalize (url req) = p \<longrightarrow>
                  code (notFoundHandler (onRoutes rs emptyEngine) req) = 405 \<and>
                  headers (notFoundHandler (onRoutes rs emptyEngine) req) = [(''Allow'', join '', '' s)]))"
proof -
  have e: "exactMethods emptyEngine p = []" by (simp add: exactMethods_def emptyEngine_def)
  then have d: "distinct (exactMethods emptyEngine p)" by simp
  from exactMethods_onRoutes[OF assms(1,2) d, of rs] assms(3) e
  have 1: "distinct (exactMethods (onRoutes rs emptyEngine) p)"
    and 2: "set (exactMethods (onRoutes rs emptyEngine) p) =
       (\<Union>r\<in>{r \<in> set rs. normalize (path r) = p}. toUpperCase ` set (route_method r))"
    and 3: "methodsByPath (onRoutes rs emptyEngine) p \<noteq> None"
    by auto
  from 3 obtain s where s: "methodsByPath (onRoutes rs emptyEngine) p = Some s" by blast
  have 4: "s \<noteq> [] \<longrightarrow>
               (\<forall>req. normalize (url req) = p \<longrightarrow>
                  code (notFoundHandler (onRoutes rs emptyEngine) req) = 405 \<and>
                  headers (notFoundHandler (onRoutes rs emptyEngine) req) = [(''Allow'', join '', '' s)])"
    using s by (simp add: notFoundHandler_def methodNotAllowed_def)
  from s 1 2 have "distinct s \<and>
     set s = (\<Union>r\<in>{r \<in> set rs. normalize (path r) = p}. toUpperCase ` set (route_method r))"
    by (simp add: exactMethods_def)
  with s 4 show ?thesis by blast
qed

theorem method_accumulation_witness:
  "CHR '':'' \<notin> set ''/items'' \<and> CHR ''*'' \<notin> set ''/items'' \<and>
   (\<exists>r\<in>set [\<lparr>route_method = [''GET''], path = ''/items''\<rparr>, \<lparr>route_method = [''post''], path = ''/items/''\<rparr>].
       normalize (path r) = ''/items'') \<and>
   (\<exists>s. methodsByPath (onRoutes [\<lparr>route_method = [''GET''], path = ''/items''\<rparr>,
                                  \<lparr>route_method = [''post''], path = ''/items/''\<rparr>] emptyEngine) ''/items'' = Some s \<and>
        distinct s \<and>
        set s = (\<Union>r\<in>{r \<in> set [\<lparr>route_method = [''GET''], path = ''/items''\<rparr>,
                                    \<lparr>route_method = [''post''], path = ''/items/''\<rparr>]. normalize (path r) = ''/items''}.
                   toUpperCase ` set (route_method r))) \<and>
   methodsByPath (onRoutes [\<lparr>route_method = [''GET''], path = ''/items''\<rparr>,
                            \<lparr>route_method = [''post''], path = ''/items/''\<rparr>] emptyEngine) ''/items'' =
     Some [''GET'', ''POST''] \<and>
   notFoundHandler (onRoutes [\<lparr>route_method = [''GET''], path = ''/items''\<rparr>,
                              \<lparr>route_method = [''post''], path = ''/items/''\<rparr>] emptyEngine)
       \<lparr>reqMethod = ''PUT'', url = ''/items''\<rparr> =
     \<lparr>code = 405, headers = [(''Allow'', ''GET, POST'')],
      payload = Some \<lparr>message = ''Route PUT:/items method not allowed'',
                      error = ''Method Not Allowed'', statusCode = 405\<rparr>\<rparr>"
proof -
  have h1: "CHR '':'' \<notin> set ''/items''" by simp
  have h2: "CHR ''*'' \<notin> set ''/items''" by simp
  have n: "normalize ''/items'' = ''/items''" by code_simp
  have h3: "\<exists>r\<in>set [\<lparr>route_method = [''GET''], path = ''/items''\<rparr>, \<lparr>route_method = [''post''], path = ''/items/''\<rparr>].
       normalize (path r) = ''/items''" using n by simp
  have m: "methodsByPath (onRoutes [\<lparr>route_method = [''GET''], path = ''/items''\<rparr>,
                            \<lparr>route_method = [''post''], path = ''/items/''\<rparr>] emptyEngine) ''/items'' =
     Some [''GET'', ''POST'']" by code_simp
  have ev: "notFoundHandler (onRoutes [\<lparr>route_method = [''GET''], path = ''/items''\<rparr>,
                              \<lparr>route_method = [''post''], path = ''/items/''\<rparr>] emptyEngine)
       \<lparr>reqMethod = ''PUT'', url = ''/items''\<rparr> =
     \<lparr>code = 405, headers = [(''Allow'', ''GET, POST'')],
      payload = Some \<lparr>message = ''Route PUT:/items method not allowed'',
                      error = ''Method Not Allowed'', statusCode = 405\<rparr>\<rparr>" by code_simp
  show ?thesis using h1 h2 h3 m ev method_accumulation[OF h1 h2 h3] by blast
qed

text \<open>
  The path \<open>/a:b\<close> has no parameter segment and no wildcard segment, so the
  specification calls it static. Declared for GET and then for POST, it gets no entry in
  the exact index: each declaration adds a pattern of its own to the bucket \<open>a:b\<close>, and a
  miss is answered with the methods of the first pattern alone, \<open>Allow: GET\<close>.
\<close>

theorem method_accumulation_counterexample:
  "\<not> specDynamic ''/a:b'' \<and>
   methodsByPath (onRoutes [\<lparr>route_method = [''GET''], path = ''/a:b''\<rparr>,
                            \<lparr>route_method = [''POST''], path = ''/a:b''\<rparr>] emptyEngine) ''/a:b'' = None \<and>
   notFoundHandler (onRoutes [\<lparr>route_method = [''GET''], path = ''/a:b''\<rparr>,
                              \<lparr>route_method = [''POST''], path = ''/a:b''\<rparr>] emptyEngine)
       \<lparr>reqMethod = ''PUT'', url = ''/a:b''\<rparr> =
     \<lparr>code = 405, headers = [(''Allow'', ''GET'')],
      payload = Some \<lparr>message = ''Route PUT:/a:b method not allowed'',
                      error = ''Method Not Allowed'', statusCode = 405\<rparr>\<rparr>"
  by code_simp

text \<open>
  Claim C5. Whatever the two maps hold, when the exact index has a non-empty method set
  for the normalised path of the request, the handler answers with status 405, with
  that set, joined by a comma and a space, as the \<open>Allow\<close> header, and with the body of
  a method that is not allowed: the pattern buckets are not consulted and the method of
  the request is not compared with the set. With \<open>/items\<close> declared for GET and \<open>/:id\<close>
  for POST, the request \<open>PUT /items\<close> is answered with \<open>Allow: GET\<close>.
\<close>

theorem exact_precedence:
  "methodsByPath e (normalize (url req)) = Some s \<Longrightarrow> s \<noteq> [] \<Longrightarrow>
     notFoundHandler e req =
       \<lparr>code = 405, headers = [(''Allow'', join '', '' s)],
        payload = Some \<lparr>message = ''Route '' @ reqMethod req @ '':'' @ url req @ '' method not allowed'',
                        error = ''Method Not Allowed'', statusCode = 405\<rparr>\<rparr>"
  by (simp add: notFoundHandler_def methodNotAllowed_def sendByStatusCode_def)

theorem exact_precedence_witness:
  "methodsByPath (onRoutes [\<lparr>route_method = [''GET''], path = ''/items''\<rparr>, \<lparr>route_method = [''POST''], path = ''/:id''\<rparr>] emptyEngine)
      (normalize (url \<lparr>reqMethod = ''PUT'', url = ''/items''\<rparr>)) = Some [''GET''] \<and>
   [''GET''] \<noteq> [] \<and>
   notFoundHandler (onRoutes [\<lparr>route_method = [''GET''], path = ''/items''\<rparr>, \<lparr>route_method = [''POST''], path = ''/:id''\<rparr>] emptyEngine)
       \<lparr>reqMethod = ''PUT'', url = ''/items''\<rparr> =
     \<lparr>code = 405, headers = [(''Allow'', ''GET'')],
      payload = Some \<lparr>message = ''Route PUT:/items method not allowed'',
                      error = ''Method Not Allowed'', statusCode = 405\<rparr>\<rparr>"
proof -
  have h1: "methodsByPath (onRoutes [\<lparr>route_method = [''GET''], path = ''/items''\<rparr>, \<lparr>route_method = [''POST''], path = ''/:id''\<rparr>] emptyEngine)
      (normalize (url \<lparr>reqMethod = ''PUT'', url = ''/items''\<rparr>)) = Some [''GET'']" by code_simp
  have h2: "[''GET''] \<noteq> []" by simp
  show ?thesis using h1 h2 exact_precedence[OF h1 h2] by simp
qed

text \<open>
  Claim C2 at the route \<open>/:id\<close>, declared for POST, and the request \<open>GET /items\<close>. The
  compiled expression accepts \<open>/items\<close>, but the hook files the pattern under the key
  \<open>:id\<close>, the first segment of the template, and the handler looks only into the bucket
  of \<open>items\<close>, the first segment of the request: there is no shared bucket, and the answer
  is 404.
\<close>

theorem parameter_headed_route_not_found:
  "regexTest (toRegex ''/:id'') ''/items'' \<and>
   patternsByHead (onRoutes [\<lparr>route_method = [''POST''], path = ''/:id''\<rparr>] emptyEngine) '':id'' =
     Some [\<lparr>regex = toRegex ''/:id'', methods = [''POST'']\<rparr>] \<and>
   patternsByHead (onRoutes [\<lparr>route_method = [''POST''], path = ''/:id''\<rparr>] emptyEngine) ''items'' = None \<and>
   notFoundHandler (onRoutes [\<lparr>route_method = [''POST''], path = ''/:id''\<rparr>] emptyEngine)
       \<lparr>reqMethod = ''GET'', url = ''/items''\<rparr> =
     \<lparr>code = 404, headers = [],
      payload = Some \<lparr>message = ''Route GET:/items not found'', error = ''Not Found'', statusCode = 404\<rparr>\<rparr>"
  by code_simp

section \<open>Properties of the facility\<close>

lemma startServer_sets_server: "server (snd (startServer f)) \<noteq> None"
  by (simp add: startServer_def Let_def)

text \<open>
  Claim C9. In the facility that a call of \<open>startServer\<close> leaves behind, each of
  \<open>addRoute\<close>, \<open>addDecorator\<close>, \<open>addPlugin\<close> and \<open>addHook\<close> throws
  \<open>ERR_FACS_SERVER_HTTP_ALREADY_INITED\<close> and leaves the facility, the lists of \<open>mem\<close>
  included, as it was; a further \<open>startServer\<close> throws \<open>ERR_FACS_SERVER_HTTP_CREATE_DUP\<close>.
\<close>

theorem registration_rejected_after_start:
  "addRoute r (snd (startServer f)) = (Inl ERR_FACS_SERVER_HTTP_ALREADY_INITED, snd (startServer f)) \<and>
   addDecorator d (snd (startServer f)) = (Inl ERR_FACS_SERVER_HTTP_ALREADY_INITED, snd (startServer f)) \<and>
   addPlugin p (snd (startServer f)) = (Inl ERR_FACS_SERVER_HTTP_ALREADY_INITED, snd (startServer f)) \<and>
   addHook n h (snd (startServer f)) = (Inl ERR_FACS_SERVER_HTTP_ALREADY_INITED, snd (startServer f)) \<and>
   startServer (snd (startServer f)) = (Inl ERR_FACS_SERVER_HTTP_CREATE_DUP, snd (startServer f))"
  using startServer_sets_server[of f]
  by (simp add: addRoute_def addDecorator_def addPlugin_def addHook_def startServer_def[of "snd (startServer f)"])

theorem registration_rejected_after_start_witness:
  "fst (startServer facilityWithBadMethod) = Inr () \<and>
   memRoutes (snd (startServer facilityWithBadMethod)) = [1] \<and>
   fst (addRoute 5 (snd (startServer facilityWithBadMethod))) = Inl ERR_FACS_SERVER_HTTP_ALREADY_INITED \<and>
   memRoutes (snd (addRoute 5 (snd (startServer facilityWithBadMethod)))) = [1] \<and>
   fst (startServer (snd (startServer facilityWithBadMethod))) = Inl ERR_FACS_SERVER_HTTP_CREATE_DUP"
proof -
  have h1: "fst (startServer facilityWithBadMethod) = Inr ()"
    by (simp add: startServer_def Let_def)
  have h2: "memRoutes (snd (startServer facilityWithBadMethod)) = [1]"
    by (simp add: startServer_def Let_def)
  show ?thesis
    using h1 h2 registration_rejected_after_start[of 5 facilityWithBadMethod 0 0 "[]" 0]
    by simp
qed

text \<open>
  Claim C10. A first \<open>startServer\<close> creates the two maps of the miss engine, adds the
  indexing \<open>onRoute\<close> hook and sets the not-found handler that answers 404 or 405 exactly
  when the option \<open>onBadMethod\<close> is truthy; when it is absent or falsy there are no maps
  and neither the hook nor that handler is installed.
\<close>

theorem miss_engine_only_with_onBadMethod:
  assumes "server f = None"
  shows "case server (snd (startServer f)) of
           None \<Rightarrow> False
         | Some s \<Rightarrow>
             missEngine s = (if onBadMethod (opts f) then Some emptyEngine else None) \<and>
             (AddHook ''onRoute'' IndexOnRoute \<in> set (calls s)) = onBadMethod (opts f) \<and>
             (SetNotFoundHandler MissHandler \<in> set (calls s)) = onBadMethod (opts f)"
  using assms
  by (auto simp: startServer_def Let_def DEFAULT_ROUTES_def split: option.splits)

theorem miss_engine_only_with_onBadMethod_witness:
  "server facilityWithBadMethod = None \<and>
   (case server (snd (startServer facilityWithBadMethod)) of
      None \<Rightarrow> False
    | Some s \<Rightarrow> missEngine s = Some emptyEngine \<and>
        AddHook ''onRoute'' IndexOnRoute \<in> set (calls s) \<and>
        SetNotFoundHandler MissHandler \<in> set (calls s)) \<and>
   server facilityWithoutBadMethod = None \<and>
   (case server (snd (startServer facilityWithoutBadMethod)) of
      None \<Rightarrow> False
    | Some s \<Rightarrow> missEngine s = None \<and>
        AddHook ''onRoute'' IndexOnRoute \<notin> set (calls s) \<and>
        SetNotFoundHandler MissHandler \<notin> set (calls s))"
proof -
  have h1: "server facilityWithBadMethod = None" by simp
  have h2: "server facilityWithoutBadMethod = None" by simp
  have o1: "onBadMethod (opts facilityWithBadMethod)" by simp
  have o2: "\<not> onBadMethod (opts facilityWithoutBadMethod)" by simp
  show ?thesis
    using h1 h2 o1 o2 miss_engine_only_with_onBadMethod[OF h1] miss_engine_only_with_onBadMethod[OF h2]
    by (auto split: option.splits)
qed

end
